theory Spec2Isabelle
  imports Complex_Main
begin

section \<open>Numbers as the scripts see them\<close>

text \<open>
  The scripts are JavaScript. A number is a double, which can also be \<open>NaN\<close> or an
  infinity. Finite values are kept here as exact reals: rounding to the nearest double
  is not modelled, except where it decides whether a value is zero or infinite
  (\<open>roundNumber\<close>), because that is what \<open>||\<close> looks at.
\<close>

datatype jsnum = NaN | PosInf | NegInf | Num real

definition roundNumber :: "real \<Rightarrow> jsnum" where
  "roundNumber v =
     (if 2 ^ 1024 - 2 ^ 970 \<le> v then PosInf
      else if v \<le> - (2 ^ 1024 - 2 ^ 970) then NegInf
      else if \<bar>v\<bar> \<le> 1 / 2 ^ 1075 then Num 0
      else Num v)"

text \<open>\<open>x || d\<close> on numbers: \<open>NaN\<close> and zero are falsy, everything else is kept.\<close>

definition falsy :: "jsnum \<Rightarrow> bool" where
  "falsy x = (x = NaN \<or> x = Num 0)"

definition logicalOr :: "jsnum \<Rightarrow> jsnum \<Rightarrow> jsnum" where
  "logicalOr x d = (if falsy x then d else x)"

subsection \<open>parseFloat\<close>

text \<open>
  \<open>parseFloat\<close> skips leading white space, reads an optional sign and then the longest
  prefix that is a decimal literal (\<open>Infinity\<close>, or digits with an optional fraction and
  an optional exponent); what follows the prefix is ignored, and no prefix at all gives
  \<open>NaN\<close>. Characters are bytes here, so the white space is the Latin-1 part of the
  language's white space.
\<close>

definition isDigit :: "char \<Rightarrow> bool" where
  "isDigit c = (c \<in> set ''0123456789'')"

definition digitVal :: "char \<Rightarrow> nat" where
  "digitVal c = (of_char c :: nat) - 48"

definition isStrWhiteSpace :: "char \<Rightarrow> bool" where
  "isStrWhiteSpace c = ((of_char c :: nat) \<in> {9, 10, 11, 12, 13, 32, 160})"

definition digitsValue :: "string \<Rightarrow> nat" where
  "digitsValue ds = foldl (\<lambda>acc c. 10 * acc + digitVal c) 0 ds"

definition exponentPart :: "string \<Rightarrow> int" where
  "exponentPart s =
     (case s of
        [] \<Rightarrow> 0
      | c # t \<Rightarrow>
          if c = CHR ''e'' \<or> c = CHR ''E'' then
            (case t of
               [] \<Rightarrow> 0
             | sg # u \<Rightarrow>
                 if sg = CHR ''-'' then - int (digitsValue (takeWhile isDigit u))
                 else if sg = CHR ''+'' then int (digitsValue (takeWhile isDigit u))
                 else int (digitsValue (takeWhile isDigit t)))
          else 0)"

text \<open>The input after its leading white space, and that again after an optional sign.\<close>

definition trimStart :: "string \<Rightarrow> string" where
  "trimStart s = dropWhile isStrWhiteSpace s"

definition stripSign :: "string \<Rightarrow> string" where
  "stripSign s = (if take 1 s = ''-'' \<or> take 1 s = ''+'' then drop 1 s else s)"

text \<open>Whether a decimal literal starts here: \<open>Infinity\<close>, a digit, or a dot and a digit.\<close>

definition startsNumber :: "string \<Rightarrow> bool" where
  "startsNumber body =
     (take 8 body = ''Infinity'' \<or>
      (case body of
         [] \<Rightarrow> False
       | c # t \<Rightarrow>
           isDigit c \<or> (c = CHR ''.'' \<and> (case t of [] \<Rightarrow> False | d # _ \<Rightarrow> isDigit d))))"

definition parseFloat :: "string \<Rightarrow> jsnum" where
  "parseFloat inputString =
     (let trimmed = trimStart inputString;
          neg = (take 1 trimmed = ''-'');
          body = stripSign trimmed
      in if take 8 body = ''Infinity'' then (if neg then NegInf else PosInf)
         else
           let ip = takeWhile isDigit body;
               r1 = dropWhile isDigit body;
               dot = (take 1 r1 = ''.'');
               fp = (if dot then takeWhile isDigit (drop 1 r1) else []);
               r2 = (if dot then dropWhile isDigit (drop 1 r1) else r1)
           in if ip = [] \<and> fp = [] then NaN
              else
                let m = real (digitsValue ip) + real (digitsValue fp) / 10 ^ length fp;
                    e = exponentPart r2;
                    v = (if 0 \<le> e then m * 10 ^ nat e else m / 10 ^ nat (- e))
                in roundNumber (if neg then - v else v))"

section \<open>Building a line from the text box\<close>

text \<open>\<open>s.split(sep)\<close> for a one-character separator: all the pieces, at least one.\<close>

fun splitOn :: "char \<Rightarrow> string \<Rightarrow> string list" where
  "splitOn sep [] = [[]]"
| "splitOn sep (c # cs) =
     (if c = sep then [] # splitOn sep cs
      else (case splitOn sep cs of
              [] \<Rightarrow> [[c]]
            | p # ps \<Rightarrow> (c # p) # ps))"

text \<open>
  \<^verbatim>\<open>let [lineText, lineScale] = lines[i].split("|");\<close>
  \<^verbatim>\<open>lineScale = parseFloat(lineScale) || 1;\<close>
  A missing second piece is \<open>undefined\<close>, which \<open>parseFloat\<close> reads as the string
  \<open>undefined\<close>.
\<close>

definition scaleSuffix :: "string \<Rightarrow> string option" where
  "scaleSuffix raw =
     (case splitOn CHR ''|'' raw of
        _ # sc # _ \<Rightarrow> Some sc
      | _ \<Rightarrow> None)"

definition argString :: "string option \<Rightarrow> string" where
  "argString a = (case a of None \<Rightarrow> ''undefined'' | Some s \<Rightarrow> s)"

definition lineText :: "string \<Rightarrow> string" where
  "lineText raw = (case splitOn CHR ''|'' raw of [] \<Rightarrow> [] | t # _ \<Rightarrow> t)"

definition lineScale :: "string \<Rightarrow> jsnum" where
  "lineScale raw = logicalOr (parseFloat (argString (scaleSuffix raw))) (Num 1)"

section \<open>The lines of the caption box\<close>

text \<open>
  One \<open>.line\<close> element of the box, with what the corner detection reads and writes:
  its class list and inline width (written), and what layout reports for it (read).
  \<open>fitWidth\<close> is the width layout gives the element under its own \<open>fit-content\<close>
  sizing; \<open>fontSize\<close> and \<open>borderRadiusVar\<close> are the parsed computed font size and
  \<open>--border-radius\<close> property, taken as numbers.
\<close>

record line =
  textContent :: string
  fontScale :: jsnum
  classList :: "string list"
  styleWidth :: "real option"
  fitWidth :: real
  fontSize :: real
  borderRadiusVar :: real

text \<open>
  Modelled from the spec: the stylesheet \<open>style.css\<close> and the layout it drives are not
  among the sources. By the data model a line without a forced width keeps its natural
  width, and a forced width is the width of the line's box; so \<open>offsetWidth\<close> is the
  inline width once one is set, and the fit-content width before.
\<close>

definition offsetWidth :: "line \<Rightarrow> real" where
  "offsetWidth l = (case styleWidth l of None \<Rightarrow> fitWidth l | Some w \<Rightarrow> w)"

definition borderRadius :: "line \<Rightarrow> real" where
  "borderRadius l = borderRadiusVar l * fontSize l"

definition tolerance :: "string \<Rightarrow> line \<Rightarrow> real" where
  "tolerance align l = (if align = ''center'' then borderRadius l * 2 else borderRadius l)"

text \<open>\<open>classList.add\<close>: a token already present is not added again.\<close>

definition classList_add :: "string \<Rightarrow> line \<Rightarrow> line" where
  "classList_add c l = (if c \<in> set (classList l) then l else l\<lparr>classList := classList l @ [c]\<rparr>)"

definition setWidth :: "real \<Rightarrow> line \<Rightarrow> line" where
  "setWidth w l = l\<lparr>styleWidth := Some w\<rparr>"

section \<open>Corner detection\<close>

text \<open>The two guards of the loop body, on \<open>lastLine\<close> and \<open>thisLine\<close>.\<close>

definition narrower :: "string \<Rightarrow> line \<Rightarrow> line \<Rightarrow> bool" where
  "narrower align lastLine thisLine =
     (offsetWidth lastLine - tolerance align lastLine
        \<ge> offsetWidth thisLine + tolerance align thisLine)"

definition wider :: "string \<Rightarrow> line \<Rightarrow> line \<Rightarrow> bool" where
  "wider align lastLine thisLine =
     (offsetWidth lastLine + tolerance align lastLine
        \<le> offsetWidth thisLine - tolerance align thisLine)"

text \<open>The body of the loop for one pair: the new \<open>lastLine\<close> and the new \<open>thisLine\<close>.\<close>

definition detectPair :: "string \<Rightarrow> line \<Rightarrow> line \<Rightarrow> line \<times> line" where
  "detectPair align lastLine thisLine =
     (if narrower align lastLine thisLine then
        (lastLine,
         (if align \<noteq> ''right'' then classList_add ''corner-tr'' else id)
           ((if align \<noteq> ''left'' then classList_add ''corner-tl'' else id) thisLine))
      else if wider align lastLine thisLine then
        ((if align \<noteq> ''right'' then classList_add ''corner-br'' else id)
           ((if align \<noteq> ''left'' then classList_add ''corner-bl'' else id) lastLine),
         thisLine)
      else
        (let width = max (offsetWidth lastLine) (offsetWidth thisLine)
         in (setWidth width (classList_add ''connect-b'' lastLine),
             setWidth width (classList_add ''connect-t'' thisLine))))"

text \<open>
  One turn of the loop. The box holds the lines and nothing else, so the previous
  element sibling of line \<open>i\<close> is line \<open>i - 1\<close>, and line \<open>0\<close> has none (\<open>continue\<close>).
\<close>

definition iteration :: "string \<Rightarrow> nat \<Rightarrow> line list \<Rightarrow> line list" where
  "iteration align i lines =
     (if i = 0 \<or> length lines \<le> i then lines
      else (case detectPair align (lines ! (i - 1)) (lines ! i) of
              (lastLine', thisLine') \<Rightarrow> lines[i - 1 := lastLine', i := thisLine']))"

definition applyCornerDetection :: "string \<Rightarrow> line list \<Rightarrow> line list" where
  "applyCornerDetection align lines = fold (iteration align) [0..<length lines] lines"

text \<open>The lines as they are when turn \<open>i\<close> of the loop starts.\<close>

definition linesBefore :: "string \<Rightarrow> line list \<Rightarrow> nat \<Rightarrow> line list" where
  "linesBefore align lines i = fold (iteration align) [0..<i] lines"

subsection \<open>Reading the decoration off a line\<close>

definition roundTopLeft :: "line \<Rightarrow> bool" where
  "roundTopLeft l = (''corner-tl'' \<in> set (classList l))"

definition roundTopRight :: "line \<Rightarrow> bool" where
  "roundTopRight l = (''corner-tr'' \<in> set (classList l))"

definition roundBottomLeft :: "line \<Rightarrow> bool" where
  "roundBottomLeft l = (''corner-bl'' \<in> set (classList l))"

definition roundBottomRight :: "line \<Rightarrow> bool" where
  "roundBottomRight l = (''corner-br'' \<in> set (classList l))"

definition forcedWidth :: "line \<Rightarrow> real option" where
  "forcedWidth l = styleWidth l"

text \<open>A line as the text handler and the page builder create it: class \<open>line\<close>, no inline width.\<close>

definition fresh :: "line \<Rightarrow> bool" where
  "fresh l = (classList l = [''line''] \<and> styleWidth l = None)"

text \<open>The three branches of the loop body, named as its comments name them.\<close>

datatype scenario = Scenario1 | Scenario2 | Scenario3

definition scenarioOf :: "string \<Rightarrow> line \<Rightarrow> line \<Rightarrow> scenario" where
  "scenarioOf align lastLine thisLine =
     (if narrower align lastLine thisLine then Scenario1
      else if wider align lastLine thisLine then Scenario2
      else Scenario3)"

text \<open>A sample line of given width and corner radius, for concrete runs.\<close>

definition mkLine :: "real \<Rightarrow> real \<Rightarrow> line" where
  "mkLine w r =
     \<lparr>textContent = ''x'', fontScale = Num 1, classList = [''line''], styleWidth = None,
      fitWidth = w, fontSize = 1, borderRadiusVar = r\<rparr>"

subsection \<open>What a pass reads and writes\<close>

text \<open>
  What measurement supplies for a line, and everything of a line that the loop reads
  or writes (the text content and the font scale are not among it).
\<close>

definition measured :: "line \<Rightarrow> real \<times> real \<times> real" where
  "measured l = (fitWidth l, fontSize l, borderRadiusVar l)"

definition layoutView :: "line \<Rightarrow> string list \<times> real option \<times> real \<times> real \<times> real" where
  "layoutView l = (classList l, styleWidth l, fitWidth l, fontSize l, borderRadiusVar l)"

section \<open>Facts about the loop\<close>


subsection \<open>What the two writes leave alone\<close>

lemma classList_add_mem: "c' \<in> set (classList (classList_add c l)) \<longleftrightarrow> c' = c \<or> c' \<in> set (classList l)"
  by (auto simp: classList_add_def)

lemma classList_add_fields:
  "textContent (classList_add c l) = textContent l"
  "fontScale (classList_add c l) = fontScale l"
  "styleWidth (classList_add c l) = styleWidth l"
  "fitWidth (classList_add c l) = fitWidth l"
  "fontSize (classList_add c l) = fontSize l"
  "borderRadiusVar (classList_add c l) = borderRadiusVar l"
  by (simp_all add: classList_add_def)

lemma setWidth_fields:
  "textContent (setWidth w l) = textContent l"
  "fontScale (setWidth w l) = fontScale l"
  "classList (setWidth w l) = classList l"
  "styleWidth (setWidth w l) = Some w"
  "fitWidth (setWidth w l) = fitWidth l"
  "fontSize (setWidth w l) = fontSize l"
  "borderRadiusVar (setWidth w l) = borderRadiusVar l"
  by (simp_all add: setWidth_def)

lemma detectPair_textContent:
  "textContent (fst (detectPair a l t)) = textContent l \<and> textContent (snd (detectPair a l t)) = textContent t"
  by (simp add: detectPair_def Let_def classList_add_fields setWidth_fields)

lemma detectPair_fontScale:
  "fontScale (fst (detectPair a l t)) = fontScale l \<and> fontScale (snd (detectPair a l t)) = fontScale t"
  by (simp add: detectPair_def Let_def classList_add_fields setWidth_fields)

lemma detectPair_fitWidth:
  "fitWidth (fst (detectPair a l t)) = fitWidth l \<and> fitWidth (snd (detectPair a l t)) = fitWidth t"
  by (simp add: detectPair_def Let_def classList_add_fields setWidth_fields)

lemma detectPair_fontSize:
  "fontSize (fst (detectPair a l t)) = fontSize l \<and> fontSize (snd (detectPair a l t)) = fontSize t"
  by (simp add: detectPair_def Let_def classList_add_fields setWidth_fields)

lemma detectPair_borderRadiusVar:
  "borderRadiusVar (fst (detectPair a l t)) = borderRadiusVar l \<and> borderRadiusVar (snd (detectPair a l t)) = borderRadiusVar t"
  by (simp add: detectPair_def Let_def classList_add_fields setWidth_fields)

lemma length_iteration: "length (iteration a i s) = length s"
  by (simp add: iteration_def split: prod.splits)

lemma length_linesBefore: "length (linesBefore a ls k) = length ls"
  by (induction k) (simp_all add: linesBefore_def length_iteration)

lemma linesBefore_0: "linesBefore a ls 0 = ls"
  by (simp add: linesBefore_def)

lemma linesBefore_Suc: "linesBefore a ls (Suc k) = iteration a k (linesBefore a ls k)"
  by (simp add: linesBefore_def)

lemma applyCornerDetection_linesBefore: "applyCornerDetection a ls = linesBefore a ls (length ls)"
  by (simp add: applyCornerDetection_def linesBefore_def)

lemma iteration_pair:
  assumes "0 < i" "i < length s"
  shows "iteration a i s ! (i - 1) = fst (detectPair a (s ! (i - 1)) (s ! i))"
    and "iteration a i s ! i = snd (detectPair a (s ! (i - 1)) (s ! i))"
  using assms by (auto simp: iteration_def split: prod.splits)

lemma iteration_other:
  assumes "j \<noteq> i" "j \<noteq> i - 1"
  shows "iteration a i s ! j = s ! j"
  using assms by (auto simp: iteration_def split: prod.splits)

lemma linesBefore_untouched:
  "k \<le> j \<Longrightarrow> linesBefore a ls k ! j = ls ! j"
  by (induction k) (simp_all add: linesBefore_0 linesBefore_Suc iteration_other)

lemma iteration_map:
  assumes "\<And>l t. f (fst (detectPair a l t)) = f l \<and> f (snd (detectPair a l t)) = f t"
  shows "map f (iteration a i s) = map f s"
proof (rule nth_equalityI)
  show "length (map f (iteration a i s)) = length (map f s)"
    by (simp add: length_iteration)
next
  fix j assume "j < length (map f (iteration a i s))"
  then have j: "j < length s" by (simp add: length_iteration)
  show "map f (iteration a i s) ! j = map f s ! j"
  proof (cases "i = 0 \<or> length s \<le> i")
    case True
    then show ?thesis by (simp add: iteration_def)
  next
    case False
    then have i: "0 < i" "i < length s" by auto
    consider "j = i" | "j = i - 1" | "j \<noteq> i" "j \<noteq> i - 1" by blast
    then show ?thesis
    proof cases
      case 1
      then show ?thesis using i j assms iteration_pair(2) [OF i, of a]
        by (simp add: length_iteration)
    next
      case 2
      then show ?thesis using i j assms iteration_pair(1) [OF i, of a]
        by (simp add: length_iteration)
    next
      case 3
      then show ?thesis using j by (simp add: length_iteration iteration_other)
    qed
  qed
qed

lemma linesBefore_map:
  assumes "\<And>l t. f (fst (detectPair a l t)) = f l \<and> f (snd (detectPair a l t)) = f t"
  shows "map f (linesBefore a ls k) = map f ls"
  by (induction k) (simp_all add: linesBefore_0 linesBefore_Suc iteration_map [of f, OF assms])

subsection \<open>The three branches\<close>

lemmas loop_defs = linesBefore_def applyCornerDetection_def iteration_def detectPair_def
  narrower_def wider_def tolerance_def borderRadius_def offsetWidth_def classList_add_def
  setWidth_def mkLine_def fresh_def

lemmas flag_defs = roundTopLeft_def roundTopRight_def roundBottomLeft_def roundBottomRight_def

lemma detectPair_narrower:
  "narrower a l t \<Longrightarrow> detectPair a l t =
     (l, (if a \<noteq> ''right'' then classList_add ''corner-tr'' else id)
           ((if a \<noteq> ''left'' then classList_add ''corner-tl'' else id) t))"
  by (simp add: detectPair_def)

lemma detectPair_wider:
  "\<not> narrower a l t \<Longrightarrow> wider a l t \<Longrightarrow> detectPair a l t =
     ((if a \<noteq> ''right'' then classList_add ''corner-br'' else id)
           ((if a \<noteq> ''left'' then classList_add ''corner-bl'' else id) l), t)"
  by (simp add: detectPair_def)

lemma detectPair_connect:
  "\<not> narrower a l t \<Longrightarrow> \<not> wider a l t \<Longrightarrow> detectPair a l t =
     (setWidth (max (offsetWidth l) (offsetWidth t)) (classList_add ''connect-b'' l),
      setWidth (max (offsetWidth l) (offsetWidth t)) (classList_add ''connect-t'' t))"
  by (simp add: detectPair_def Let_def)

subsection \<open>Which lines a turn touches\<close>

lemma iteration_nth:
  "iteration a i s ! j =
     (if 0 < i \<and> i < length s \<and> j = i then snd (detectPair a (s ! (i - 1)) (s ! i))
      else if 0 < i \<and> i < length s \<and> j = i - 1 then fst (detectPair a (s ! (i - 1)) (s ! i))
      else s ! j)"
proof (cases "0 < i \<and> i < length s")
  case True
  then show ?thesis
    using iteration_pair [of i s a] iteration_other [of j i a s] by auto
next
  case False
  then show ?thesis by (auto simp: iteration_def)
qed

lemma iteration_Suc_pair:
  assumes "Suc j < length s"
  shows "iteration a (Suc j) s ! j = fst (detectPair a (s ! j) (s ! Suc j))"
    and "iteration a (Suc j) s ! Suc j = snd (detectPair a (s ! j) (s ! Suc j))"
  using iteration_pair [of "Suc j" s a] assms by simp_all

lemma linesBefore_settled:
  "Suc (Suc j) \<le> k \<Longrightarrow> linesBefore a ls k ! j = linesBefore a ls (Suc (Suc j)) ! j"
proof (induction k)
  case 0
  then show ?case by simp
next
  case (Suc k)
  show ?case
  proof (cases "Suc (Suc j) \<le> k")
    case True
    then have "iteration a k (linesBefore a ls k) ! j = linesBefore a ls k ! j"
      by (intro iteration_other) auto
    with True Suc.IH show ?thesis by (simp add: linesBefore_Suc)
  next
    case False
    with Suc.prems have "Suc k = Suc (Suc j)" by simp
    then show ?thesis by simp
  qed
qed

lemma linesBefore_as_last:
  assumes "\<And>l t. f (fst (detectPair a l t)) = f l"
  shows "f (linesBefore a ls (Suc (Suc j)) ! j) = f (linesBefore a ls (Suc j) ! j)"
  using assms by (simp add: linesBefore_Suc [of a ls "Suc j"] iteration_nth)

lemma final_line:
  assumes "\<And>l t. f (fst (detectPair a l t)) = f l" "j < length ls"
  shows "f (applyCornerDetection a ls ! j) = f (linesBefore a ls (Suc j) ! j)"
proof (cases "Suc (Suc j) \<le> length ls")
  case True
  then show ?thesis
    using linesBefore_settled [OF True, of a ls] linesBefore_as_last [of f a ls j] assms(1)
    by (simp add: applyCornerDetection_linesBefore)
next
  case False
  with assms(2) have "length ls = Suc j" by simp
  then show ?thesis by (simp add: applyCornerDetection_linesBefore)
qed

lemma final_line_above:
  assumes "Suc j < length ls"
  shows "applyCornerDetection a ls ! j = linesBefore a ls (Suc (Suc j)) ! j"
  using assms linesBefore_settled [of j "length ls" a ls]
  by (simp add: applyCornerDetection_linesBefore)

subsection \<open>Invariants of the loop\<close>

lemma iteration_pres:
  assumes step: "\<And>l t. P l \<Longrightarrow> P t \<Longrightarrow> P (fst (detectPair a l t)) \<and> P (snd (detectPair a l t))"
    and all: "\<forall>j < length s. P (s ! j)"
  shows "\<forall>j < length s. P (iteration a i s ! j)"
proof (intro allI impI)
  fix j assume j: "j < length s"
  show "P (iteration a i s ! j)"
  proof (cases "0 < i \<and> i < length s")
    case True
    then have "P (s ! (i - 1))" "P (s ! i)" using all by auto
    then have "P (fst (detectPair a (s ! (i - 1)) (s ! i)))"
      "P (snd (detectPair a (s ! (i - 1)) (s ! i)))" using step by auto
    then show ?thesis using all j by (simp add: iteration_nth)
  next
    case False
    then show ?thesis using all j by (auto simp: iteration_def)
  qed
qed

lemma linesBefore_pres:
  assumes step: "\<And>l t. P l \<Longrightarrow> P t \<Longrightarrow> P (fst (detectPair a l t)) \<and> P (snd (detectPair a l t))"
    and all: "\<forall>j < length ls. P (ls ! j)"
  shows "\<forall>j < length ls. P (linesBefore a ls k ! j)"
proof (induction k)
  case 0
  then show ?case using all by (simp add: linesBefore_0)
next
  case (Suc k)
  then show ?case
    using iteration_pres [of P a "linesBefore a ls k" k, OF step]
    by (simp add: linesBefore_Suc length_linesBefore)
qed

lemma offsetWidth_classList_add: "offsetWidth (classList_add c l) = offsetWidth l"
  by (simp add: offsetWidth_def classList_add_def split: option.splits)

lemma offsetWidth_setWidth: "offsetWidth (setWidth w l) = w"
  by (simp add: offsetWidth_def setWidth_fields)

lemma tolerance_classList_add: "tolerance a (classList_add c l) = tolerance a l"
  by (simp add: tolerance_def borderRadius_def classList_add_fields)

lemma tolerance_setWidth: "tolerance a (setWidth w l) = tolerance a l"
  by (simp add: tolerance_def borderRadius_def setWidth_fields)

lemma detectPair_not_below_fit:
  assumes "fitWidth l \<le> offsetWidth l" "fitWidth t \<le> offsetWidth t"
  shows "fitWidth (fst (detectPair a l t)) \<le> offsetWidth (fst (detectPair a l t)) \<and>
         fitWidth (snd (detectPair a l t)) \<le> offsetWidth (snd (detectPair a l t))"
proof -
  consider "narrower a l t" | "\<not> narrower a l t" "wider a l t"
    | "\<not> narrower a l t" "\<not> wider a l t" by blast
  then show ?thesis
  proof cases
    case 1
    then show ?thesis
      using assms by (simp add: detectPair_narrower offsetWidth_classList_add classList_add_fields)
  next
    case 2
    then show ?thesis
      using assms by (simp add: detectPair_wider offsetWidth_classList_add classList_add_fields)
  next
    case 3
    then show ?thesis
      using assms
      by (simp add: detectPair_connect offsetWidth_setWidth classList_add_fields setWidth_fields
          offsetWidth_classList_add le_max_iff_disj)
  qed
qed

lemma fresh_offsetWidth: "fresh l \<Longrightarrow> offsetWidth l = fitWidth l"
  by (simp add: fresh_def offsetWidth_def)

lemma linesBefore_fitWidth:
  "j < length ls \<Longrightarrow> fitWidth (linesBefore a ls k ! j) = fitWidth (ls ! j)"
  using linesBefore_map [of fitWidth a ls k, OF detectPair_fitWidth]
  by (metis length_linesBefore nth_map)

lemma tolerance_cong:
  "fontSize l = fontSize l' \<Longrightarrow> borderRadiusVar l = borderRadiusVar l' \<Longrightarrow> tolerance a l = tolerance a l'"
  by (simp add: tolerance_def borderRadius_def)

lemma linesBefore_tolerance:
  assumes "j < length ls"
  shows "tolerance a (linesBefore a ls k ! j) = tolerance a (ls ! j)"
proof -
  have "fontSize (linesBefore a ls k ! j) = fontSize (ls ! j)"
    using linesBefore_map [of fontSize a ls k, OF detectPair_fontSize] assms
    by (metis length_linesBefore nth_map)
  moreover have "borderRadiusVar (linesBefore a ls k ! j) = borderRadiusVar (ls ! j)"
    using linesBefore_map [of borderRadiusVar a ls k, OF detectPair_borderRadiusVar] assms
    by (metis length_linesBefore nth_map)
  ultimately show ?thesis by (rule tolerance_cong)
qed

lemma linesBefore_not_below_fit:
  assumes "\<forall>l \<in> set ls. fresh l" "j < length ls"
  shows "fitWidth (ls ! j) \<le> offsetWidth (linesBefore a ls k ! j)"
proof -
  have "\<forall>j < length ls. fitWidth (ls ! j) \<le> offsetWidth (ls ! j)"
    using assms(1) by (simp add: fresh_offsetWidth)
  then have "\<forall>j < length ls. fitWidth (linesBefore a ls k ! j) \<le> offsetWidth (linesBefore a ls k ! j)"
    using linesBefore_pres [of "\<lambda>l. fitWidth l \<le> offsetWidth l" a ls k] detectPair_not_below_fit
    by blast
  then show ?thesis using assms(2) by (simp add: linesBefore_fitWidth)
qed

subsection \<open>Corner flags\<close>

lemma fresh_flags:
  "fresh l \<Longrightarrow> \<not> roundTopLeft l \<and> \<not> roundTopRight l \<and> \<not> roundBottomLeft l \<and>
     \<not> roundBottomRight l \<and> forcedWidth l = None"
  by (simp add: fresh_def flag_defs forcedWidth_def)

lemma top_corners_added:
  "roundTopLeft ((if a \<noteq> ''right'' then classList_add ''corner-tr'' else id)
       ((if a \<noteq> ''left'' then classList_add ''corner-tl'' else id) t)) = (a \<noteq> ''left'' \<or> roundTopLeft t)"
  "roundTopRight ((if a \<noteq> ''right'' then classList_add ''corner-tr'' else id)
       ((if a \<noteq> ''left'' then classList_add ''corner-tl'' else id) t)) = (a \<noteq> ''right'' \<or> roundTopRight t)"
  "roundBottomLeft ((if a \<noteq> ''right'' then classList_add ''corner-tr'' else id)
       ((if a \<noteq> ''left'' then classList_add ''corner-tl'' else id) t)) = roundBottomLeft t"
  "roundBottomRight ((if a \<noteq> ''right'' then classList_add ''corner-tr'' else id)
       ((if a \<noteq> ''left'' then classList_add ''corner-tl'' else id) t)) = roundBottomRight t"
  "forcedWidth ((if a \<noteq> ''right'' then classList_add ''corner-tr'' else id)
       ((if a \<noteq> ''left'' then classList_add ''corner-tl'' else id) t)) = forcedWidth t"
  by (auto simp: flag_defs forcedWidth_def classList_add_mem classList_add_fields)

lemma bottom_corners_added:
  "roundBottomLeft ((if a \<noteq> ''right'' then classList_add ''corner-br'' else id)
       ((if a \<noteq> ''left'' then classList_add ''corner-bl'' else id) l)) = (a \<noteq> ''left'' \<or> roundBottomLeft l)"
  "roundBottomRight ((if a \<noteq> ''right'' then classList_add ''corner-br'' else id)
       ((if a \<noteq> ''left'' then classList_add ''corner-bl'' else id) l)) = (a \<noteq> ''right'' \<or> roundBottomRight l)"
  "roundTopLeft ((if a \<noteq> ''right'' then classList_add ''corner-br'' else id)
       ((if a \<noteq> ''left'' then classList_add ''corner-bl'' else id) l)) = roundTopLeft l"
  "roundTopRight ((if a \<noteq> ''right'' then classList_add ''corner-br'' else id)
       ((if a \<noteq> ''left'' then classList_add ''corner-bl'' else id) l)) = roundTopRight l"
  "forcedWidth ((if a \<noteq> ''right'' then classList_add ''corner-br'' else id)
       ((if a \<noteq> ''left'' then classList_add ''corner-bl'' else id) l)) = forcedWidth l"
  by (auto simp: flag_defs forcedWidth_def classList_add_mem classList_add_fields)

lemma connect_flags:
  "roundTopLeft (setWidth w (classList_add ''connect-b'' l)) = roundTopLeft l"
  "roundTopRight (setWidth w (classList_add ''connect-b'' l)) = roundTopRight l"
  "roundBottomLeft (setWidth w (classList_add ''connect-b'' l)) = roundBottomLeft l"
  "roundBottomRight (setWidth w (classList_add ''connect-b'' l)) = roundBottomRight l"
  "roundTopLeft (setWidth w (classList_add ''connect-t'' l)) = roundTopLeft l"
  "roundTopRight (setWidth w (classList_add ''connect-t'' l)) = roundTopRight l"
  "roundBottomLeft (setWidth w (classList_add ''connect-t'' l)) = roundBottomLeft l"
  "roundBottomRight (setWidth w (classList_add ''connect-t'' l)) = roundBottomRight l"
  "forcedWidth (setWidth w l) = Some w"
  by (simp_all add: flag_defs forcedWidth_def classList_add_mem setWidth_fields)

lemma detectPair_last_keeps_top:
  "roundTopLeft (fst (detectPair a l t)) = roundTopLeft l"
  "roundTopRight (fst (detectPair a l t)) = roundTopRight l"
  by (simp_all add: detectPair_def Let_def bottom_corners_added connect_flags)

lemma detectPair_this_keeps_bottom:
  "roundBottomLeft (snd (detectPair a l t)) = roundBottomLeft t"
  "roundBottomRight (snd (detectPair a l t)) = roundBottomRight t"
  by (simp_all add: detectPair_def Let_def top_corners_added connect_flags)

lemma previous_line_no_bottom:
  assumes "\<forall>l \<in> set ls. fresh l" "j < length ls"
  shows "\<not> roundBottomLeft (linesBefore a ls (Suc j) ! j) \<and>
         \<not> roundBottomRight (linesBefore a ls (Suc j) ! j)"
proof -
  have fr: "fresh (ls ! j)" using assms by simp
  have "linesBefore a ls (Suc j) ! j =
          (if 0 < j then snd (detectPair a (linesBefore a ls j ! (j - 1)) (ls ! j)) else ls ! j)"
    using assms(2) by (simp add: linesBefore_Suc iteration_nth length_linesBefore linesBefore_untouched)
  then show ?thesis
    using fresh_flags [OF fr] by (cases "0 < j") (simp_all add: detectPair_this_keeps_bottom)
qed

subsection \<open>Two boxes that lay out alike\<close>

lemma layoutView_reads:
  assumes "layoutView l = layoutView l'"
  shows "offsetWidth l = offsetWidth l'" "tolerance a l = tolerance a l'"
    "layoutView (classList_add c l) = layoutView (classList_add c l')"
    "layoutView (setWidth w l) = layoutView (setWidth w l')"
  using assms
  by (simp_all add: layoutView_def offsetWidth_def tolerance_def borderRadius_def
      classList_add_def setWidth_def cong: option.case_cong)

lemma detectPair_layoutView:
  assumes l: "layoutView l = layoutView l'" and t: "layoutView t = layoutView t'"
  shows "layoutView (fst (detectPair a l t)) = layoutView (fst (detectPair a l' t')) \<and>
         layoutView (snd (detectPair a l t)) = layoutView (snd (detectPair a l' t'))"
proof -
  have n: "narrower a l t = narrower a l' t'" and w: "wider a l t = wider a l' t'"
    using layoutView_reads(1,2) [OF l] layoutView_reads(1,2) [OF t]
    by (simp_all add: narrower_def wider_def)
  have m: "max (offsetWidth l) (offsetWidth t) = max (offsetWidth l') (offsetWidth t')"
    using layoutView_reads(1) [OF l] layoutView_reads(1) [OF t] by simp
  consider "narrower a l t" | "\<not> narrower a l t" "wider a l t"
    | "\<not> narrower a l t" "\<not> wider a l t" by blast
  then show ?thesis
  proof cases
    case 1
    then show ?thesis
      using n l t layoutView_reads(3) [OF t] layoutView_reads(3) [OF layoutView_reads(3) [OF t]]
      by (simp add: detectPair_narrower)
  next
    case 2
    then show ?thesis
      using n w l t layoutView_reads(3) [OF l] layoutView_reads(3) [OF layoutView_reads(3) [OF l]]
      by (simp add: detectPair_wider)
  next
    case 3
    then show ?thesis
      using n w m layoutView_reads(4) [OF layoutView_reads(3) [OF l]]
        layoutView_reads(4) [OF layoutView_reads(3) [OF t]]
      by (simp add: detectPair_connect)
  qed
qed

lemma iteration_layoutView:
  assumes "map layoutView s = map layoutView s'"
  shows "map layoutView (iteration a i s) = map layoutView (iteration a i s')"
proof (rule nth_equalityI)
  have len: "length s = length s'" using assms by (metis length_map)
  then show "length (map layoutView (iteration a i s)) = length (map layoutView (iteration a i s'))"
    by (simp add: length_iteration)
  fix j assume "j < length (map layoutView (iteration a i s))"
  then have j: "j < length s" "j < length s'" using len by (simp_all add: length_iteration)
  have nth: "\<And>k. k < length s \<Longrightarrow> layoutView (s ! k) = layoutView (s' ! k)"
    using assms len by (metis nth_map)
  show "map layoutView (iteration a i s) ! j = map layoutView (iteration a i s') ! j"
  proof (cases "0 < i \<and> i < length s")
    case True
    then have "i - 1 < length s" "i < length s" by arith+
    then have v: "layoutView (s ! (i - 1)) = layoutView (s' ! (i - 1))"
      "layoutView (s ! i) = layoutView (s' ! i)" using nth by blast+
    note dp = detectPair_layoutView [OF v, of a]
    show ?thesis
    proof (cases "j = i \<or> j = i - 1")
      case True
      then show ?thesis using \<open>0 < i \<and> i < length s\<close> j len dp
        by (auto simp: length_iteration iteration_nth)
    next
      case False
      then show ?thesis using j len nth [OF j(1)]
        by (simp add: length_iteration iteration_nth)
    qed
  next
    case False
    then show ?thesis using j len nth [OF j(1)]
      by (auto simp: iteration_def)
  qed
qed

lemma linesBefore_layoutView:
  assumes "map layoutView ls = map layoutView ls'"
  shows "map layoutView (linesBefore a ls k) = map layoutView (linesBefore a ls' k)"
proof (induction k)
  case 0
  show ?case using assms by (simp add: linesBefore_0)
next
  case (Suc k)
  show ?case unfolding linesBefore_Suc using Suc.IH by (rule iteration_layoutView)
qed

lemma fresh_layoutView:
  assumes "\<forall>l \<in> set ls. fresh l" "\<forall>l \<in> set ls'. fresh l" "map measured ls = map measured ls'"
  shows "map layoutView ls = map layoutView ls'"
proof (rule nth_equalityI)
  have len: "length ls = length ls'" using assms(3) by (metis length_map)
  then show "length (map layoutView ls) = length (map layoutView ls')" by simp
  fix j assume "j < length (map layoutView ls)"
  then have j: "j < length ls" "j < length ls'" using len by simp_all
  then have "fresh (ls ! j)" "fresh (ls' ! j)" using assms(1,2) by simp_all
  moreover have "measured (ls ! j) = measured (ls' ! j)" using assms(3) j by (metis nth_map)
  ultimately show "map layoutView ls ! j = map layoutView ls' ! j"
    using j by (simp add: layoutView_def measured_def fresh_def)
qed

subsection \<open>Splitting and parsing\<close>

lemmas parse_defs = lineScale_def scaleSuffix_def argString_def parseFloat_def logicalOr_def
  falsy_def roundNumber_def isDigit_def isStrWhiteSpace_def digitsValue_def digitVal_def
  exponentPart_def trimStart_def stripSign_def Let_def

lemma roundNumber_not_NaN: "roundNumber v \<noteq> NaN"
  by (simp add: roundNumber_def)

lemma parseFloat_NaN_iff:
  "parseFloat s = NaN \<longleftrightarrow> \<not> startsNumber (stripSign (trimStart s))"
proof -
  define body where "body = stripSign (trimStart s)"
  show ?thesis
  proof (cases "take 8 body = ''Infinity''")
    case True
    then show ?thesis
      by (simp add: parseFloat_def Let_def startsNumber_def body_def [symmetric])
  next
    case notInf: False
    show ?thesis
    proof (cases body)
      case Nil
      then show ?thesis using notInf
        by (simp add: parseFloat_def Let_def startsNumber_def body_def [symmetric])
    next
      case (Cons c t)
      show ?thesis
      proof (cases "isDigit c")
        case True
        then show ?thesis using notInf Cons
          by (simp add: parseFloat_def Let_def startsNumber_def body_def [symmetric] roundNumber_not_NaN)
      next
        case nd: False
        show ?thesis
        proof (cases "c = CHR ''.''")
          case True
          then show ?thesis using notInf Cons nd
            by (cases t) (simp_all add: parseFloat_def Let_def startsNumber_def body_def [symmetric]
                roundNumber_not_NaN)
        next
          case False
          then show ?thesis using notInf Cons nd
            by (simp add: parseFloat_def Let_def startsNumber_def body_def [symmetric])
        qed
      qed
    qed
  qed
qed

lemma splitOn_nonempty: "splitOn sep s \<noteq> []"
  by (induction s) (auto split: list.splits)

lemma splitOn_single: "(\<exists>p. splitOn sep s = [p]) \<longleftrightarrow> sep \<notin> set s"
proof (induction s)
  case Nil
  then show ?case by simp
next
  case (Cons c cs)
  then show ?case using splitOn_nonempty [of sep cs]
    by (auto split: list.splits)
qed

lemma scaleSuffix_None_iff: "scaleSuffix raw = None \<longleftrightarrow> CHR ''|'' \<notin> set raw"
proof -
  have "scaleSuffix raw = None \<longleftrightarrow> (\<exists>p. splitOn CHR ''|'' raw = [p])"
    using splitOn_nonempty [of "CHR ''|''" raw]
    by (auto simp: scaleSuffix_def split: list.splits)
  then show ?thesis by (simp add: splitOn_single)
qed

lemma parseFloat_undefined: "parseFloat ''undefined'' = NaN"
  by (simp add: parse_defs)

section \<open>The claims\<close>

text \<open>
  C1 (as the code has it). For every pair exactly one branch of the loop body runs:
  the first when \<open>narrower\<close> holds, the second when it does not and \<open>wider\<close> holds,
  the third when neither holds, and the pair is rewritten as that branch says. Both
  comparisons are non-strict, so two lines of equal width whose tolerances are both zero
  satisfy both guards, and the first branch takes them: they get top corners, they are
  not connected.
\<close>

theorem one_scenario_per_pair:
  "(scenarioOf a l t = Scenario1 \<longleftrightarrow> narrower a l t) \<and>
   (scenarioOf a l t = Scenario2 \<longleftrightarrow> \<not> narrower a l t \<and> wider a l t) \<and>
   (scenarioOf a l t = Scenario3 \<longleftrightarrow> \<not> narrower a l t \<and> \<not> wider a l t) \<and>
   detectPair a l t =
     (case scenarioOf a l t of
        Scenario1 \<Rightarrow>
          (l, (if a \<noteq> ''right'' then classList_add ''corner-tr'' else id)
                ((if a \<noteq> ''left'' then classList_add ''corner-tl'' else id) t))
      | Scenario2 \<Rightarrow>
          ((if a \<noteq> ''right'' then classList_add ''corner-br'' else id)
             ((if a \<noteq> ''left'' then classList_add ''corner-bl'' else id) l), t)
      | Scenario3 \<Rightarrow>
          (setWidth (max (offsetWidth l) (offsetWidth t)) (classList_add ''connect-b'' l),
           setWidth (max (offsetWidth l) (offsetWidth t)) (classList_add ''connect-t'' t))) \<and>
   (offsetWidth l = offsetWidth t \<and> tolerance a l = 0 \<and> tolerance a t = 0 \<longrightarrow>
      narrower a l t \<and> wider a l t \<and> scenarioOf a l t = Scenario1)"
  by (simp add: scenarioOf_def detectPair_def Let_def narrower_def wider_def)

text \<open>Two lines of width 50 and radius 0, centered: both guards hold, the first branch runs.\<close>

theorem one_scenario_per_pair_witness:
  "offsetWidth (mkLine 50 0) = offsetWidth (mkLine 50 0) \<and> tolerance ''center'' (mkLine 50 0) = 0 \<and>
   narrower ''center'' (mkLine 50 0) (mkLine 50 0) \<and> wider ''center'' (mkLine 50 0) (mkLine 50 0) \<and>
   scenarioOf ''center'' (mkLine 50 0) (mkLine 50 0) = Scenario1"
proof -
  have t: "tolerance ''center'' (mkLine 50 0) = 0"
    by (simp add: tolerance_def borderRadius_def mkLine_def)
  show ?thesis
    using one_scenario_per_pair [of "''center''" "mkLine 50 0" "mkLine 50 0"] t by simp
qed

text \<open>
  The specification has equal widths with zero tolerances connected. A box
  of two lines of width 100 and radius 0, left-aligned: the second line gets
  \<open>corner-tr\<close> and neither line gets a width.
\<close>

theorem equal_widths_zero_tolerance_not_welded:
  "offsetWidth (mkLine 100 0) = offsetWidth (mkLine 100 0) \<and>
   tolerance ''left'' (mkLine 100 0) = 0 \<and>
   scenarioOf ''left'' (mkLine 100 0) (mkLine 100 0) = Scenario1 \<and>
   applyCornerDetection ''left'' [mkLine 100 0, mkLine 100 0]
     = [mkLine 100 0, (mkLine 100 0)\<lparr>classList := [''line'', ''corner-tr'']\<rparr>] \<and>
   forcedWidth (applyCornerDetection ''left'' [mkLine 100 0, mkLine 100 0] ! 0) = None \<and>
   forcedWidth (applyCornerDetection ''left'' [mkLine 100 0, mkLine 100 0] ! 1) = None \<and>
   roundTopRight (applyCornerDetection ''left'' [mkLine 100 0, mkLine 100 0] ! 1)"
  by (simp add: loop_defs scenarioOf_def forcedWidth_def roundTopRight_def upt_rec)

text \<open>
  C2. In a box of fresh lines, take turn \<open>i\<close> of the loop, with \<open>s\<close> the lines as
  they are when it starts. If the measured widths of lines \<open>i - 1\<close> and \<open>i\<close> satisfy
  the first guard (or the widths the loop reads do), the first branch runs: line \<open>i\<close>
  gets \<open>corner-tl\<close> exactly when the alignment is not left and \<open>corner-tr\<close> exactly
  when it is not right, it gets no width, and line \<open>i - 1\<close> is left as it was. Both
  flags are still so when the pass has finished.
\<close>

theorem narrower_line_gets_top_corners:
  assumes fresh: "\<forall>l \<in> set lines. fresh l"
    and i: "0 < i" "i < length lines"
    and s: "s = linesBefore align lines i"
    and caseA: "fitWidth (lines ! (i - 1)) - tolerance align (lines ! (i - 1))
                  \<ge> fitWidth (lines ! i) + tolerance align (lines ! i)
                \<or> narrower align (s ! (i - 1)) (s ! i)"
  shows "narrower align (s ! (i - 1)) (s ! i) \<and>
         iteration align i s ! (i - 1) = s ! (i - 1) \<and>
         roundTopLeft (iteration align i s ! i) = (align \<noteq> ''left'') \<and>
         roundTopRight (iteration align i s ! i) = (align \<noteq> ''right'') \<and>
         forcedWidth (iteration align i s ! i) = None \<and>
         roundTopLeft (applyCornerDetection align lines ! i) = (align \<noteq> ''left'') \<and>
         roundTopRight (applyCornerDetection align lines ! i) = (align \<noteq> ''right'')"
proof -
  obtain j where j: "i = Suc j" using i(1) by (cases i) auto
  have len: "Suc j < length s" "Suc j < length lines" "j < length lines"
    using i s j by (simp_all add: length_linesBefore)
  have this_line: "s ! Suc j = lines ! Suc j" using s j by (simp add: linesBefore_untouched)
  have fr: "fresh (lines ! Suc j)" using fresh len by simp
  have ow_this: "offsetWidth (s ! Suc j) = fitWidth (lines ! Suc j)"
    using this_line fr by (simp add: fresh_offsetWidth)
  have tol_last: "tolerance align (s ! j) = tolerance align (lines ! j)"
    using len s by (simp add: linesBefore_tolerance)
  have ow_last: "fitWidth (lines ! j) \<le> offsetWidth (s ! j)"
    using fresh len s by (simp add: linesBefore_not_below_fit)
  have A: "narrower align (s ! j) (s ! Suc j)"
    using caseA ow_this this_line tol_last ow_last j by (auto simp: narrower_def)
  have pair: "iteration align (Suc j) s ! j = s ! j"
    "iteration align (Suc j) s ! Suc j =
       (if align \<noteq> ''right'' then classList_add ''corner-tr'' else id)
         ((if align \<noteq> ''left'' then classList_add ''corner-tl'' else id) (lines ! Suc j))"
    using iteration_Suc_pair [OF len(1), of align] A this_line
    by (simp_all add: detectPair_narrower)
  have tl: "roundTopLeft (iteration align (Suc j) s ! Suc j) = (align \<noteq> ''left'')"
    and tr: "roundTopRight (iteration align (Suc j) s ! Suc j) = (align \<noteq> ''right'')"
    and fw: "forcedWidth (iteration align (Suc j) s ! Suc j) = None"
    using fresh_flags [OF fr] by (simp_all add: pair(2) top_corners_added)
  have after: "linesBefore align lines (Suc (Suc j)) = iteration align (Suc j) s"
    using s j by (simp add: linesBefore_Suc)
  have "roundTopLeft (applyCornerDetection align lines ! Suc j)
          = roundTopLeft (iteration align (Suc j) s ! Suc j)"
    using final_line [where f = roundTopLeft and a = align and ls = lines and j = "Suc j"] len after
    by (simp add: detectPair_last_keeps_top)
  moreover have "roundTopRight (applyCornerDetection align lines ! Suc j)
          = roundTopRight (iteration align (Suc j) s ! Suc j)"
    using final_line [where f = roundTopRight and a = align and ls = lines and j = "Suc j"] len after
    by (simp add: detectPair_last_keeps_top)
  ultimately show ?thesis using A pair(1) tl tr fw j by simp
qed

text \<open>Widths 100 and 90, radius 4, left-aligned: the second line gets only \<open>corner-tr\<close>.\<close>

theorem narrower_line_gets_top_corners_witness:
  "fresh (mkLine 100 4) \<and> fresh (mkLine 90 4) \<and>
   fitWidth (mkLine 100 4) - tolerance ''left'' (mkLine 100 4)
     \<ge> fitWidth (mkLine 90 4) + tolerance ''left'' (mkLine 90 4) \<and>
   \<not> roundTopLeft (applyCornerDetection ''left'' [mkLine 100 4, mkLine 90 4] ! 1) \<and>
   roundTopRight (applyCornerDetection ''left'' [mkLine 100 4, mkLine 90 4] ! 1) \<and>
   iteration ''left'' 1 (linesBefore ''left'' [mkLine 100 4, mkLine 90 4] 1) ! 0
     = linesBefore ''left'' [mkLine 100 4, mkLine 90 4] 1 ! 0"
proof -
  have f: "\<forall>l \<in> set [mkLine 100 4, mkLine 90 4]. fresh l"
    by (simp add: fresh_def mkLine_def)
  have a: "fitWidth ([mkLine 100 4, mkLine 90 4] ! (1 - 1))
             - tolerance ''left'' ([mkLine 100 4, mkLine 90 4] ! (1 - 1))
           \<ge> fitWidth ([mkLine 100 4, mkLine 90 4] ! 1)
             + tolerance ''left'' ([mkLine 100 4, mkLine 90 4] ! 1)"
    by (simp add: tolerance_def borderRadius_def mkLine_def)
  have i: "(0::nat) < 1" "1 < length [mkLine 100 4, mkLine 90 4]" by simp_all
  show ?thesis
    using narrower_line_gets_top_corners [OF f i refl disjI1 [OF a]] f a by simp
qed

text \<open>
  C3 (as the code has it). In a box of fresh lines, if at turn \<open>i\<close> the first guard
  fails and the second holds, on the widths the loop reads then, line \<open>i - 1\<close> gets
  \<open>corner-bl\<close> exactly when the alignment is not left and \<open>corner-br\<close> exactly when
  it is not right, its width is left alone, and line \<open>i\<close> is left as it was. Both
  flags are still so when the pass has finished.
\<close>

theorem wider_line_rounds_bottom_of_previous:
  assumes fresh: "\<forall>l \<in> set lines. fresh l"
    and i: "0 < i" "i < length lines"
    and s: "s = linesBefore align lines i"
    and notA: "\<not> narrower align (s ! (i - 1)) (s ! i)"
    and caseB: "wider align (s ! (i - 1)) (s ! i)"
  shows "iteration align i s ! i = lines ! i \<and>
         roundBottomLeft (iteration align i s ! (i - 1)) = (align \<noteq> ''left'') \<and>
         roundBottomRight (iteration align i s ! (i - 1)) = (align \<noteq> ''right'') \<and>
         forcedWidth (iteration align i s ! (i - 1)) = forcedWidth (s ! (i - 1)) \<and>
         roundBottomLeft (applyCornerDetection align lines ! (i - 1)) = (align \<noteq> ''left'') \<and>
         roundBottomRight (applyCornerDetection align lines ! (i - 1)) = (align \<noteq> ''right'')"
proof -
  obtain j where j: "i = Suc j" using i(1) by (cases i) auto
  have len: "Suc j < length s" "Suc j < length lines" "j < length lines"
    using i s j by (simp_all add: length_linesBefore)
  have this_line: "s ! Suc j = lines ! Suc j" using s j by (simp add: linesBefore_untouched)
  have nb: "\<not> roundBottomLeft (s ! j)" "\<not> roundBottomRight (s ! j)"
    using previous_line_no_bottom [OF fresh len(3), of align] s j by simp_all
  have pair: "iteration align (Suc j) s ! Suc j = lines ! Suc j"
    "iteration align (Suc j) s ! j =
       (if align \<noteq> ''right'' then classList_add ''corner-br'' else id)
         ((if align \<noteq> ''left'' then classList_add ''corner-bl'' else id) (s ! j))"
    using iteration_Suc_pair [OF len(1), of align] notA caseB this_line j
    by (simp_all add: detectPair_wider)
  have bl: "roundBottomLeft (iteration align (Suc j) s ! j) = (align \<noteq> ''left'')"
    and br: "roundBottomRight (iteration align (Suc j) s ! j) = (align \<noteq> ''right'')"
    and fw: "forcedWidth (iteration align (Suc j) s ! j) = forcedWidth (s ! j)"
    using nb by (simp_all add: pair(2) bottom_corners_added)
  have "applyCornerDetection align lines ! j = linesBefore align lines (Suc (Suc j)) ! j"
    using len(2) by (rule final_line_above)
  also have "\<dots> = iteration align (Suc j) s ! j"
    using s j by (simp add: linesBefore_Suc)
  finally show ?thesis using pair(1) bl br fw j by simp
qed

text \<open>Widths 90 and 100, radius 4, left-aligned: the first line gets only \<open>corner-br\<close>.\<close>

theorem wider_line_rounds_bottom_of_previous_witness:
  "fresh (mkLine 90 4) \<and> fresh (mkLine 100 4) \<and>
   \<not> narrower ''left'' (mkLine 90 4) (mkLine 100 4) \<and>
   wider ''left'' (mkLine 90 4) (mkLine 100 4) \<and>
   \<not> roundBottomLeft (applyCornerDetection ''left'' [mkLine 90 4, mkLine 100 4] ! 0) \<and>
   roundBottomRight (applyCornerDetection ''left'' [mkLine 90 4, mkLine 100 4] ! 0) \<and>
   iteration ''left'' 1 (linesBefore ''left'' [mkLine 90 4, mkLine 100 4] 1) ! 1 = mkLine 100 4"
proof -
  have f: "\<forall>l \<in> set [mkLine 90 4, mkLine 100 4]. fresh l"
    by (simp add: fresh_def mkLine_def)
  have s: "linesBefore ''left'' [mkLine 90 4, mkLine 100 4] 1 = [mkLine 90 4, mkLine 100 4]"
    by (simp add: linesBefore_def iteration_def)
  have n: "\<not> narrower ''left'' (mkLine 90 4) (mkLine 100 4)"
    and w: "wider ''left'' (mkLine 90 4) (mkLine 100 4)"
    by (simp_all add: narrower_def wider_def offsetWidth_def tolerance_def borderRadius_def mkLine_def)
  have i: "(0::nat) < 1" "1 < length [mkLine 90 4, mkLine 100 4]" by simp_all
  show ?thesis
    using wider_line_rounds_bottom_of_previous [OF f i refl, of "''left''"] f s n w by simp
qed

text \<open>
  The second guard alone is not enough. Two lines of width 100 and radius 0, centered,
  satisfy it, but the first guard holds too and wins: the first line gets no bottom
  corner and the second line gets both top corners.
\<close>

theorem equal_widths_zero_tolerance_rounds_top_not_bottom:
  "wider ''center'' (mkLine 100 0) (mkLine 100 0) \<and>
   \<not> roundBottomLeft (applyCornerDetection ''center'' [mkLine 100 0, mkLine 100 0] ! 0) \<and>
   \<not> roundBottomRight (applyCornerDetection ''center'' [mkLine 100 0, mkLine 100 0] ! 0) \<and>
   roundTopLeft (applyCornerDetection ''center'' [mkLine 100 0, mkLine 100 0] ! 1) \<and>
   roundTopRight (applyCornerDetection ''center'' [mkLine 100 0, mkLine 100 0] ! 1)"
  by (simp add: loop_defs flag_defs upt_rec)

text \<open>
  C4 (as the code has it). In a box of fresh lines, if at turn \<open>i\<close> both guards fail,
  both lines get the same inline width \<open>w\<close>, the larger of the two widths the loop
  reads then: for line \<open>i\<close> its measured width, for line \<open>i - 1\<close> its measured width
  or, when the turn before gave it one, its inline width. No corner flag of either line
  changes in this turn. Line \<open>i - 1\<close> still has width \<open>w\<close> when the pass has finished.
\<close>

theorem similar_lines_are_connected:
  assumes fresh: "\<forall>l \<in> set lines. fresh l"
    and i: "0 < i" "i < length lines"
    and s: "s = linesBefore align lines i"
    and notA: "\<not> narrower align (s ! (i - 1)) (s ! i)"
    and notB: "\<not> wider align (s ! (i - 1)) (s ! i)"
    and w: "w = max (offsetWidth (s ! (i - 1))) (offsetWidth (s ! i))"
  shows "forcedWidth (iteration align i s ! (i - 1)) = Some w \<and>
         forcedWidth (iteration align i s ! i) = Some w \<and>
         offsetWidth (s ! i) = fitWidth (lines ! i) \<and>
         offsetWidth (s ! (i - 1)) =
           (case forcedWidth (s ! (i - 1)) of None \<Rightarrow> fitWidth (lines ! (i - 1)) | Some v \<Rightarrow> v) \<and>
         roundTopLeft (iteration align i s ! (i - 1)) = roundTopLeft (s ! (i - 1)) \<and>
         roundTopRight (iteration align i s ! (i - 1)) = roundTopRight (s ! (i - 1)) \<and>
         roundBottomLeft (iteration align i s ! (i - 1)) = roundBottomLeft (s ! (i - 1)) \<and>
         roundBottomRight (iteration align i s ! (i - 1)) = roundBottomRight (s ! (i - 1)) \<and>
         roundTopLeft (iteration align i s ! i) = roundTopLeft (s ! i) \<and>
         roundTopRight (iteration align i s ! i) = roundTopRight (s ! i) \<and>
         roundBottomLeft (iteration align i s ! i) = roundBottomLeft (s ! i) \<and>
         roundBottomRight (iteration align i s ! i) = roundBottomRight (s ! i) \<and>
         forcedWidth (applyCornerDetection align lines ! (i - 1)) = Some w"
proof -
  obtain j where j: "i = Suc j" using i(1) by (cases i) auto
  have len: "Suc j < length s" "Suc j < length lines" "j < length lines"
    using i s j by (simp_all add: length_linesBefore)
  have this_line: "s ! Suc j = lines ! Suc j" using s j by (simp add: linesBefore_untouched)
  have fr: "fresh (lines ! Suc j)" using fresh len by simp
  have ow_this: "offsetWidth (s ! Suc j) = fitWidth (lines ! Suc j)"
    using this_line fr by (simp add: fresh_offsetWidth)
  have "fitWidth (s ! j) = fitWidth (lines ! j)"
    using len s by (simp add: linesBefore_fitWidth)
  then have ow_last: "offsetWidth (s ! j) =
      (case forcedWidth (s ! j) of None \<Rightarrow> fitWidth (lines ! j) | Some v \<Rightarrow> v)"
    by (simp add: offsetWidth_def forcedWidth_def split: option.splits)
  have pair: "iteration align (Suc j) s ! j = setWidth w (classList_add ''connect-b'' (s ! j))"
    "iteration align (Suc j) s ! Suc j = setWidth w (classList_add ''connect-t'' (s ! Suc j))"
    using iteration_Suc_pair [OF len(1), of align] notA notB w j
    by (simp_all add: detectPair_connect)
  have "applyCornerDetection align lines ! j = linesBefore align lines (Suc (Suc j)) ! j"
    using len(2) by (rule final_line_above)
  also have "\<dots> = iteration align (Suc j) s ! j"
    using s j by (simp add: linesBefore_Suc)
  finally have "forcedWidth (applyCornerDetection align lines ! j) = Some w"
    by (simp add: pair(1) connect_flags)
  then show ?thesis
    unfolding j using ow_this ow_last by (simp add: pair connect_flags cong: option.case_cong)
qed

text \<open>
  Widths 100, 97 and 95, radius 4, left-aligned, at the third line: the line above has
  been widened to 100 by then, and the third line gets 100.
\<close>

theorem similar_lines_are_connected_witness:
  "fresh (mkLine 100 4) \<and> fresh (mkLine 97 4) \<and> fresh (mkLine 95 4) \<and>
   \<not> narrower ''left'' (linesBefore ''left'' [mkLine 100 4, mkLine 97 4, mkLine 95 4] 2 ! 1)
       (linesBefore ''left'' [mkLine 100 4, mkLine 97 4, mkLine 95 4] 2 ! 2) \<and>
   \<not> wider ''left'' (linesBefore ''left'' [mkLine 100 4, mkLine 97 4, mkLine 95 4] 2 ! 1)
       (linesBefore ''left'' [mkLine 100 4, mkLine 97 4, mkLine 95 4] 2 ! 2) \<and>
   offsetWidth (linesBefore ''left'' [mkLine 100 4, mkLine 97 4, mkLine 95 4] 2 ! 1) = 100 \<and>
   forcedWidth (iteration ''left'' 2
      (linesBefore ''left'' [mkLine 100 4, mkLine 97 4, mkLine 95 4] 2) ! 2) = Some 100 \<and>
   forcedWidth (applyCornerDetection ''left'' [mkLine 100 4, mkLine 97 4, mkLine 95 4] ! 1) = Some 100"
proof -
  have f: "\<forall>l \<in> set [mkLine 100 4, mkLine 97 4, mkLine 95 4]. fresh l"
    by (simp add: fresh_def mkLine_def)
  have s: "linesBefore ''left'' [mkLine 100 4, mkLine 97 4, mkLine 95 4] 2
     = [setWidth 100 (classList_add ''connect-b'' (mkLine 100 4)),
        setWidth 100 (classList_add ''connect-t'' (mkLine 97 4)), mkLine 95 4]"
    by (simp add: loop_defs upt_rec)
  have n: "\<not> narrower ''left'' (setWidth 100 (classList_add ''connect-t'' (mkLine 97 4))) (mkLine 95 4)"
    and w: "\<not> wider ''left'' (setWidth 100 (classList_add ''connect-t'' (mkLine 97 4))) (mkLine 95 4)"
    and o: "offsetWidth (setWidth 100 (classList_add ''connect-t'' (mkLine 97 4))) = 100"
    and o': "offsetWidth (mkLine 95 4) = 95"
    by (simp_all add: narrower_def wider_def offsetWidth_def tolerance_def borderRadius_def
        mkLine_def setWidth_def classList_add_def)
  have i: "(0::nat) < 2" "2 < length [mkLine 100 4, mkLine 97 4, mkLine 95 4]" by simp_all
  show ?thesis
    using similar_lines_are_connected [OF f i refl, of "''left''" 100] f s n w o o' by simp
qed

text \<open>
  Read on the measured widths, the specification's rule fails on the same box: measured, the second and
  third line are 97 and 95 wide and neither guard holds for them, yet both end with
  width 100, not 97.
\<close>

theorem forced_width_is_not_max_of_measured_widths:
  "\<not> narrower ''left'' (mkLine 97 4) (mkLine 95 4) \<and>
   \<not> wider ''left'' (mkLine 97 4) (mkLine 95 4) \<and>
   max (fitWidth (mkLine 97 4)) (fitWidth (mkLine 95 4)) = 97 \<and>
   forcedWidth (applyCornerDetection ''left'' [mkLine 100 4, mkLine 97 4, mkLine 95 4] ! 1) = Some 100 \<and>
   forcedWidth (applyCornerDetection ''left'' [mkLine 100 4, mkLine 97 4, mkLine 95 4] ! 2) = Some 100"
  by (simp add: loop_defs forcedWidth_def upt_rec)

text \<open>
  C5 (as the code has it). The scale of a raw line is never \<open>NaN\<close> and never zero. It is
  1 when the line has no \<open>|\<close>, when what follows the first \<open>|\<close> does not start
  (after white space and an optional sign) with a decimal literal, and when it parses to
  zero. Any other parsed value is kept as it is, a negative one too. Nothing in the
  operation can fail: it is a total function of the raw line.
\<close>

theorem scale_falls_back_to_one:
  "lineScale raw \<noteq> NaN \<and> lineScale raw \<noteq> Num 0 \<and>
   (CHR ''|'' \<notin> set raw \<longrightarrow> lineScale raw = Num 1) \<and>
   (\<forall>sc. scaleSuffix raw = Some sc \<and> \<not> startsNumber (stripSign (trimStart sc))
      \<longrightarrow> lineScale raw = Num 1) \<and>
   (\<forall>sc. scaleSuffix raw = Some sc \<and> parseFloat sc = Num 0 \<longrightarrow> lineScale raw = Num 1) \<and>
   (\<forall>sc x. scaleSuffix raw = Some sc \<and> parseFloat sc = Num x \<and> x \<noteq> 0
      \<longrightarrow> lineScale raw = Num x) \<and>
   lineScale ''Text|abc'' = Num 1 \<and> lineScale ''Text|'' = Num 1 \<and> lineScale ''Text'' = Num 1 \<and>
   lineScale ''Text|0'' = Num 1"
proof -
  have a: "lineScale raw \<noteq> NaN \<and> lineScale raw \<noteq> Num 0"
    by (simp add: lineScale_def logicalOr_def falsy_def)
  have b: "CHR ''|'' \<notin> set raw \<longrightarrow> lineScale raw = Num 1"
  proof
    assume "CHR ''|'' \<notin> set raw"
    then have "scaleSuffix raw = None" by (simp add: scaleSuffix_None_iff)
    then show "lineScale raw = Num 1"
      by (simp add: lineScale_def argString_def parseFloat_undefined logicalOr_def falsy_def)
  qed
  have c: "\<forall>sc. scaleSuffix raw = Some sc \<and> \<not> startsNumber (stripSign (trimStart sc))
      \<longrightarrow> lineScale raw = Num 1"
    using parseFloat_NaN_iff
    by (simp add: lineScale_def argString_def logicalOr_def falsy_def)
  have d: "\<forall>sc. scaleSuffix raw = Some sc \<and> parseFloat sc = Num 0 \<longrightarrow> lineScale raw = Num 1"
    by (simp add: lineScale_def argString_def logicalOr_def falsy_def)
  have e: "\<forall>sc x. scaleSuffix raw = Some sc \<and> parseFloat sc = Num x \<and> x \<noteq> 0
      \<longrightarrow> lineScale raw = Num x"
    by (simp add: lineScale_def argString_def logicalOr_def falsy_def)
  have f: "lineScale ''Text|abc'' = Num 1" by (simp add: parse_defs)
  have g: "lineScale ''Text|'' = Num 1" by (simp add: parse_defs)
  have h: "lineScale ''Text'' = Num 1" by (simp add: parse_defs)
  have k: "lineScale ''Text|0'' = Num 1" by (simp add: parse_defs)
  show ?thesis using a b c d e f g h k by blast
qed

text \<open>The suffix \<open>-0.5\<close> is kept as the scale; the suffix \<open>abc\<close> gives 1.\<close>

theorem scale_falls_back_to_one_witness:
  "scaleSuffix ''Text|-0.5'' = Some ''-0.5'' \<and> parseFloat ''-0.5'' = Num (- 1 / 2) \<and>
   lineScale ''Text|-0.5'' = Num (- 1 / 2) \<and>
   scaleSuffix ''Text|abc'' = Some ''abc'' \<and> \<not> startsNumber (stripSign (trimStart ''abc'')) \<and>
   lineScale ''Text|abc'' = Num 1"
proof -
  have s: "scaleSuffix ''Text|-0.5'' = Some ''-0.5''" by (simp add: scaleSuffix_def)
  have p: "parseFloat ''-0.5'' = Num (- 1 / 2)" by (simp add: parse_defs)
  have n: "(- 1 / 2 :: real) \<noteq> 0" by simp
  have s': "scaleSuffix ''Text|abc'' = Some ''abc''" by (simp add: scaleSuffix_def)
  have q: "\<not> startsNumber (stripSign (trimStart ''abc''))"
    by (simp add: startsNumber_def stripSign_def trimStart_def isStrWhiteSpace_def isDigit_def)
  show ?thesis
    using scale_falls_back_to_one [of "''Text|-0.5''"] s p n s' q by blast
qed

text \<open>The specification gives \<open>Text|-2\<close> the scale 1; the code gives it \<open>-2\<close>.\<close>

theorem negative_scale_is_kept:
  "scaleSuffix ''Text|-2'' = Some ''-2'' \<and> parseFloat ''-2'' = Num (- 2) \<and>
   lineScale ''Text|-2'' = Num (- 2) \<and> lineScale ''Text|-2'' \<noteq> Num 1"
  by (simp add: parse_defs)

text \<open>
  C6. The tolerance of a line is its border radius times 2 when the alignment is
  \<open>center\<close> and times 1 otherwise. So the same pair can fall into different branches:
  widths 100 and 90 with radius 4 take the first branch under left and right alignment
  (96 against 94) and the third under center (92 against 98, 108 against 82).
\<close>

theorem tolerance_doubles_when_centered:
  "tolerance align l = borderRadius l * (if align = ''center'' then 2 else 1) \<and>
   scenarioOf ''left'' (mkLine 100 4) (mkLine 90 4) = Scenario1 \<and>
   scenarioOf ''right'' (mkLine 100 4) (mkLine 90 4) = Scenario1 \<and>
   scenarioOf ''center'' (mkLine 100 4) (mkLine 90 4) = Scenario3 \<and>
   roundTopRight (applyCornerDetection ''left'' [mkLine 100 4, mkLine 90 4] ! 1) \<and>
   forcedWidth (applyCornerDetection ''left'' [mkLine 100 4, mkLine 90 4] ! 1) = None \<and>
   forcedWidth (applyCornerDetection ''center'' [mkLine 100 4, mkLine 90 4] ! 1) = Some 100 \<and>
   \<not> roundTopRight (applyCornerDetection ''center'' [mkLine 100 4, mkLine 90 4] ! 1)"
proof -
  have "tolerance align l = borderRadius l * (if align = ''center'' then 2 else 1)"
    by (simp add: tolerance_def)
  moreover have "scenarioOf ''left'' (mkLine 100 4) (mkLine 90 4) = Scenario1"
    "scenarioOf ''right'' (mkLine 100 4) (mkLine 90 4) = Scenario1"
    "scenarioOf ''center'' (mkLine 100 4) (mkLine 90 4) = Scenario3"
    by (simp_all add: scenarioOf_def narrower_def wider_def tolerance_def borderRadius_def
        offsetWidth_def mkLine_def)
  moreover have "roundTopRight (applyCornerDetection ''left'' [mkLine 100 4, mkLine 90 4] ! 1)"
    "forcedWidth (applyCornerDetection ''left'' [mkLine 100 4, mkLine 90 4] ! 1) = None"
    "forcedWidth (applyCornerDetection ''center'' [mkLine 100 4, mkLine 90 4] ! 1) = Some 100"
    "\<not> roundTopRight (applyCornerDetection ''center'' [mkLine 100 4, mkLine 90 4] ! 1)"
    by (simp_all add: loop_defs roundTopRight_def forcedWidth_def upt_rec)
  ultimately show ?thesis by simp
qed

text \<open>
  C7. In a box of fresh lines, if turn \<open>i\<close> connects lines \<open>i - 1\<close> and \<open>i\<close>, then at
  turn \<open>i + 1\<close> the loop reads for line \<open>i\<close> the width \<open>w\<close> that turn \<open>i\<close> gave it,
  which is at least its measured width: both guards of turn \<open>i + 1\<close> are evaluated on
  \<open>w\<close>, and if that turn connects too, the new width is the larger of \<open>w\<close> and the
  measured width of line \<open>i + 1\<close>. This can change the branch: with widths 100, 97 and
  90 and radius 4, left-aligned, the measured widths 97 and 90 satisfy neither guard,
  but the third line gets \<open>corner-tr\<close> and no width, because 97 has become 100.
\<close>

theorem weld_overwrites_width_for_next_pair:
  assumes fresh: "\<forall>l \<in> set lines. fresh l"
    and i: "0 < i" "Suc i < length lines"
    and s: "s = linesBefore align lines i"
    and notA: "\<not> narrower align (s ! (i - 1)) (s ! i)"
    and notB: "\<not> wider align (s ! (i - 1)) (s ! i)"
    and w: "w = max (offsetWidth (s ! (i - 1))) (fitWidth (lines ! i))"
    and s': "s' = linesBefore align lines (Suc i)"
  shows "forcedWidth (s' ! i) = Some w \<and> offsetWidth (s' ! i) = w \<and> fitWidth (lines ! i) \<le> w \<and>
         narrower align (s' ! i) (s' ! Suc i) =
           (w - tolerance align (lines ! i)
              \<ge> fitWidth (lines ! Suc i) + tolerance align (lines ! Suc i)) \<and>
         wider align (s' ! i) (s' ! Suc i) =
           (w + tolerance align (lines ! i)
              \<le> fitWidth (lines ! Suc i) - tolerance align (lines ! Suc i)) \<and>
         (\<not> narrower align (s' ! i) (s' ! Suc i) \<and> \<not> wider align (s' ! i) (s' ! Suc i) \<longrightarrow>
            forcedWidth (iteration align (Suc i) s' ! Suc i)
              = Some (max w (fitWidth (lines ! Suc i)))) \<and>
         \<not> narrower ''left'' (mkLine 97 4) (mkLine 90 4) \<and>
         \<not> wider ''left'' (mkLine 97 4) (mkLine 90 4) \<and>
         roundTopRight (applyCornerDetection ''left'' [mkLine 100 4, mkLine 97 4, mkLine 90 4] ! 2) \<and>
         forcedWidth (applyCornerDetection ''left'' [mkLine 100 4, mkLine 97 4, mkLine 90 4] ! 2) = None"
proof -
  obtain j where j: "i = Suc j" using i(1) by (cases i) auto
  have len: "Suc j < length s" "Suc j < length lines" "Suc (Suc j) < length lines"
    "Suc (Suc j) < length s'"
    using i s s' j by (simp_all add: length_linesBefore)
  have this_line: "s ! Suc j = lines ! Suc j" using s j by (simp add: linesBefore_untouched)
  have fr: "fresh (lines ! Suc j)" "fresh (lines ! Suc (Suc j))" using fresh len by simp_all
  have ow_this: "offsetWidth (s ! Suc j) = fitWidth (lines ! Suc j)"
    using this_line fr by (simp add: fresh_offsetWidth)
  have step: "s' = iteration align (Suc j) s" using s s' j by (simp add: linesBefore_Suc)
  have welded: "s' ! Suc j = setWidth w (classList_add ''connect-t'' (lines ! Suc j))"
    using iteration_Suc_pair(2) [OF len(1), of align] notA notB w j ow_this this_line step
    by (simp add: detectPair_connect)
  have next_line: "s' ! Suc (Suc j) = lines ! Suc (Suc j)"
    using s' j by (simp add: linesBefore_untouched)
  have ow: "offsetWidth (s' ! Suc j) = w" by (simp add: welded offsetWidth_setWidth)
  have fw: "forcedWidth (s' ! Suc j) = Some w" by (simp add: welded connect_flags)
  have tol: "tolerance align (s' ! Suc j) = tolerance align (lines ! Suc j)"
    by (simp add: welded tolerance_setWidth tolerance_classList_add)
  have ow_next: "offsetWidth (s' ! Suc (Suc j)) = fitWidth (lines ! Suc (Suc j))"
    using next_line fr by (simp add: fresh_offsetWidth)
  have ge: "fitWidth (lines ! Suc j) \<le> w" using w j by simp
  have nar: "narrower align (s' ! Suc j) (s' ! Suc (Suc j)) =
           (w - tolerance align (lines ! Suc j)
              \<ge> fitWidth (lines ! Suc (Suc j)) + tolerance align (lines ! Suc (Suc j)))"
    using ow tol ow_next next_line by (simp add: narrower_def)
  have wid: "wider align (s' ! Suc j) (s' ! Suc (Suc j)) =
           (w + tolerance align (lines ! Suc j)
              \<le> fitWidth (lines ! Suc (Suc j)) - tolerance align (lines ! Suc (Suc j)))"
    using ow tol ow_next next_line by (simp add: wider_def)
  have nxt: "\<not> narrower align (s' ! Suc j) (s' ! Suc (Suc j)) \<and>
             \<not> wider align (s' ! Suc j) (s' ! Suc (Suc j)) \<longrightarrow>
            forcedWidth (iteration align (Suc (Suc j)) s' ! Suc (Suc j))
              = Some (max w (fitWidth (lines ! Suc (Suc j))))"
    using iteration_Suc_pair(2) [OF len(4), of align] ow ow_next
    by (simp add: detectPair_connect connect_flags)
  have c1: "\<not> narrower ''left'' (mkLine 97 4) (mkLine 90 4)"
    and c2: "\<not> wider ''left'' (mkLine 97 4) (mkLine 90 4)"
    by (simp_all add: loop_defs)
  have c3: "roundTopRight (applyCornerDetection ''left'' [mkLine 100 4, mkLine 97 4, mkLine 90 4] ! 2)"
    by (simp add: loop_defs roundTopRight_def upt_rec)
  have c4: "forcedWidth (applyCornerDetection ''left'' [mkLine 100 4, mkLine 97 4, mkLine 90 4] ! 2) = None"
    by (simp add: loop_defs forcedWidth_def upt_rec)
  show ?thesis
    unfolding j using fw ow ge nar wid nxt c1 c2 c3 c4 by simp
qed

text \<open>The same box, at the second line.\<close>

theorem weld_overwrites_width_for_next_pair_witness:
  "fresh (mkLine 100 4) \<and> fresh (mkLine 97 4) \<and> fresh (mkLine 90 4) \<and>
   \<not> narrower ''left'' (mkLine 100 4) (mkLine 97 4) \<and>
   \<not> wider ''left'' (mkLine 100 4) (mkLine 97 4) \<and>
   fitWidth (mkLine 97 4) = 97 \<and>
   offsetWidth (linesBefore ''left'' [mkLine 100 4, mkLine 97 4, mkLine 90 4] 2 ! 1) = 100 \<and>
   narrower ''left'' (linesBefore ''left'' [mkLine 100 4, mkLine 97 4, mkLine 90 4] 2 ! 1)
      (linesBefore ''left'' [mkLine 100 4, mkLine 97 4, mkLine 90 4] 2 ! 2)"
proof -
  have f: "\<forall>l \<in> set [mkLine 100 4, mkLine 97 4, mkLine 90 4]. fresh l"
    by (simp add: fresh_def mkLine_def)
  have s: "linesBefore ''left'' [mkLine 100 4, mkLine 97 4, mkLine 90 4] 1
     = [mkLine 100 4, mkLine 97 4, mkLine 90 4]"
    by (simp add: linesBefore_def iteration_def)
  have n: "\<not> narrower ''left'' (mkLine 100 4) (mkLine 97 4)"
    and w: "\<not> wider ''left'' (mkLine 100 4) (mkLine 97 4)"
    and o: "offsetWidth (mkLine 100 4) = 100" "fitWidth (mkLine 97 4) = 97"
      "fitWidth (mkLine 90 4) = 90" "tolerance ''left'' (mkLine 97 4) = 4"
      "tolerance ''left'' (mkLine 90 4) = 4"
    by (simp_all add: narrower_def wider_def offsetWidth_def tolerance_def borderRadius_def
        mkLine_def)
  have i: "(0::nat) < 1" "Suc 1 < length [mkLine 100 4, mkLine 97 4, mkLine 90 4]" by simp_all
  show ?thesis
    using weld_overwrites_width_for_next_pair [OF f i refl _ _ refl refl, of "''left''"]
      f s n w o
    by (simp add: numeral_2_eq_2)
qed

text \<open>
  C8. A caption of a single line gets no decoration: the loop has one turn, the line has
  no previous sibling, and the pass returns the line as it was (no class added, no
  inline width set).
\<close>

theorem single_line_no_decoration: "applyCornerDetection align [l] = [l]"
  by (simp add: applyCornerDetection_def iteration_def)

text \<open>
  C9. What a pass attaches is a function of the alignment and of what was measured, and
  of nothing else: two boxes of fresh lines with the same measured widths, font sizes and
  border radii get the same class lists and the same inline widths, line by line,
  whatever their texts and scales. Running the pass again on lines built afresh from the
  same input therefore gives the same result.
\<close>

theorem decoration_depends_only_on_measurements:
  assumes "\<forall>l \<in> set lines. fresh l" and "\<forall>l \<in> set lines'. fresh l"
    and "map measured lines = map measured lines'"
  shows "map classList (applyCornerDetection align lines)
           = map classList (applyCornerDetection align lines') \<and>
         map forcedWidth (applyCornerDetection align lines)
           = map forcedWidth (applyCornerDetection align lines')"
proof -
  have len: "length lines = length lines'" using assms(3) by (metis length_map)
  have "map layoutView (linesBefore align lines (length lines))
          = map layoutView (linesBefore align lines' (length lines))"
    using fresh_layoutView [OF assms] by (rule linesBefore_layoutView)
  then have v: "map layoutView (applyCornerDetection align lines)
          = map layoutView (applyCornerDetection align lines')"
    using len by (simp add: applyCornerDetection_linesBefore)
  have "map (fst \<circ> layoutView) (applyCornerDetection align lines)
          = map (fst \<circ> layoutView) (applyCornerDetection align lines')"
    using v by (metis map_map)
  moreover have "map (fst \<circ> snd \<circ> layoutView) (applyCornerDetection align lines)
          = map (fst \<circ> snd \<circ> layoutView) (applyCornerDetection align lines')"
    using v by (metis map_map)
  moreover have "fst \<circ> layoutView = classList" "fst \<circ> snd \<circ> layoutView = forcedWidth"
    by (auto simp: layoutView_def forcedWidth_def)
  ultimately show ?thesis by simp
qed

text \<open>Two boxes that differ in text and scale only, right-aligned.\<close>

theorem decoration_depends_only_on_measurements_witness:
  "fresh (mkLine 100 4) \<and> fresh (mkLine 90 4) \<and>
   fresh ((mkLine 100 4)\<lparr>textContent := ''Hello''\<rparr>) \<and>
   fresh ((mkLine 90 4)\<lparr>textContent := ''world'', fontScale := Num 2\<rparr>) \<and>
   map measured [mkLine 100 4, mkLine 90 4]
     = map measured [(mkLine 100 4)\<lparr>textContent := ''Hello''\<rparr>,
                     (mkLine 90 4)\<lparr>textContent := ''world'', fontScale := Num 2\<rparr>] \<and>
   map classList (applyCornerDetection ''right'' [mkLine 100 4, mkLine 90 4])
     = map classList (applyCornerDetection ''right''
         [(mkLine 100 4)\<lparr>textContent := ''Hello''\<rparr>,
          (mkLine 90 4)\<lparr>textContent := ''world'', fontScale := Num 2\<rparr>]) \<and>
   map forcedWidth (applyCornerDetection ''right'' [mkLine 100 4, mkLine 90 4])
     = map forcedWidth (applyCornerDetection ''right''
         [(mkLine 100 4)\<lparr>textContent := ''Hello''\<rparr>,
          (mkLine 90 4)\<lparr>textContent := ''world'', fontScale := Num 2\<rparr>])"
proof -
  have f: "\<forall>l \<in> set [mkLine 100 4, mkLine 90 4]. fresh l"
    by (simp add: fresh_def mkLine_def)
  have f': "\<forall>l \<in> set [(mkLine 100 4)\<lparr>textContent := ''Hello''\<rparr>,
                     (mkLine 90 4)\<lparr>textContent := ''world'', fontScale := Num 2\<rparr>]. fresh l"
    by (simp add: fresh_def mkLine_def)
  have m: "map measured [mkLine 100 4, mkLine 90 4]
     = map measured [(mkLine 100 4)\<lparr>textContent := ''Hello''\<rparr>,
                     (mkLine 90 4)\<lparr>textContent := ''world'', fontScale := Num 2\<rparr>]"
    by (simp add: measured_def mkLine_def)
  show ?thesis
    using decoration_depends_only_on_measurements [OF f f' m, of "''right''"] f f' m by simp
qed

text \<open>
  C10. The pass never changes a line's text or scale. After it there are as many lines
  as before, each with the text content and the font scale it had; what layout measured
  for the line (natural width, font size, border radius property) is unchanged too, so
  only the class list and the inline width can differ.
\<close>

theorem text_and_scale_unchanged:
  "length (applyCornerDetection align lines) = length lines \<and>
   map textContent (applyCornerDetection align lines) = map textContent lines \<and>
   map fontScale (applyCornerDetection align lines) = map fontScale lines \<and>
   map fitWidth (applyCornerDetection align lines) = map fitWidth lines \<and>
   map fontSize (applyCornerDetection align lines) = map fontSize lines \<and>
   map borderRadiusVar (applyCornerDetection align lines) = map borderRadiusVar lines"
  unfolding applyCornerDetection_linesBefore
  by (simp add: length_linesBefore
      linesBefore_map [of textContent, OF detectPair_textContent]
      linesBefore_map [of fontScale, OF detectPair_fontScale]
      linesBefore_map [of fitWidth, OF detectPair_fitWidth]
      linesBefore_map [of fontSize, OF detectPair_fontSize]
      linesBefore_map [of borderRadiusVar, OF detectPair_borderRadiusVar])

end
